theory Spec2Isabelle
  imports Main
begin

section \<open>Regular expressions of the linter, as a backtracking matcher\<close>

text \<open>
  \<^verbatim>\<open>VerilatorLinter.ts\<close> recovers all structure from the text Verilator writes to stderr
  with four regular expressions.  They are embedded as terms of a small regular-expression
  datatype and run by a backtracking matcher that lists every way a pattern can match at a
  position, in the priority order of the ECMAScript matcher: a greedy quantifier tries one
  more iteration before it tries to stop, an alternation tries its left branch first.
  The first element of the list is the match JavaScript reports.

  A state of the matcher is the input still to be read and the named groups captured so far.
  A \<^verbatim>\<open>char\<close> stands for a code unit below 256.  The unnamed parentheses of the source patterns
  capture nothing the code ever reads, so they are plain grouping here.
\<close>

type_synonym groups = "string \<Rightarrow> string option"

datatype regex =
    Lit string
  | Cls "char \<Rightarrow> bool"
  | Seq regex regex
  | Alt regex regex
  | Opt regex
  | Star regex
  | Grp string regex

fun bt :: "regex \<Rightarrow> string \<times> groups \<Rightarrow> (string \<times> groups) list" where
  "bt (Lit w) st =
     (if take (length w) (fst st) = w then [(drop (length w) (fst st), snd st)] else [])"
| "bt (Cls p) st =
     (case fst st of [] \<Rightarrow> [] | c # cs \<Rightarrow> if p c then [(cs, snd st)] else [])"
| "bt (Seq a b) st = concat (map (\<lambda>st'. bt b st') (bt a st))"
| "bt (Alt a b) st = bt a st @ bt b st"
| "bt (Opt a) st = bt a st @ [st]"
| "bt (Star a) st =
     concat (map (\<lambda>st'. if length (fst st') < length (fst st) then bt (Star a) st' else [])
                 (bt a st)) @ [st]"
| "bt (Grp n a) st =
     map (\<lambda>st'. (fst st', (snd st')(n \<mapsto> take (length (fst st) - length (fst st')) (fst st))))
         (bt a st)"

text \<open>
  The equation of \<open>Star\<close> rewrites under its own \<open>\<lambda>\<close>, so it is not a default
  simplification rule; evaluation by the code equations is unaffected.
\<close>

declare bt.simps(6) [simp del]

text \<open>\<^verbatim>\<open>a+\<close> is \<^verbatim>\<open>a\<close> followed by \<^verbatim>\<open>a*\<close>.\<close>

definition Plus :: "regex \<Rightarrow> regex" where
  "Plus a = Seq a (Star a)"

fun seqs :: "regex list \<Rightarrow> regex" where
  "seqs [] = Lit []"
| "seqs [r] = r"
| "seqs (r # rs) = Seq r (seqs rs)"

text \<open>
  The result of \<^verbatim>\<open>RegExp.prototype.exec\<close>: the matched text (\<^verbatim>\<open>rex[0]\<close>) and the named
  groups, or nothing (\<^verbatim>\<open>null\<close>).  None of the patterns is anchored, so the search moves on
  to the next start position when the pattern does not match at the current one.  Every
  pattern object is used from \<^verbatim>\<open>lastIndex = 0\<close>: three are literals without the \<^verbatim>\<open>g\<close> flag
  and the fourth is built anew for each line.
\<close>

record match =
  matched :: string
  groups :: groups

fun exec :: "regex \<Rightarrow> string \<Rightarrow> match option" where
  "exec r s =
     (case bt r (s, Map.empty) of
        st' # _ \<Rightarrow> Some \<lparr>matched = take (length s - length (fst st')) s, groups = snd st'\<rparr>
      | [] \<Rightarrow> (case s of [] \<Rightarrow> None | _ # t \<Rightarrow> exec r t))"

declare exec.simps [simp del]

definition test :: "regex \<Rightarrow> string \<Rightarrow> bool" where
  "test r s \<longleftrightarrow> exec r s \<noteq> None"

text \<open>
  A group value in a condition (\<^verbatim>\<open>if (g)\<close>, \<^verbatim>\<open>!g\<close>): \<^verbatim>\<open>undefined\<close> and the empty string are
  falsy.
\<close>

definition truthy :: "string option \<Rightarrow> bool" where
  "truthy v = (case v of Some s \<Rightarrow> s \<noteq> [] | None \<Rightarrow> False)"

text \<open>
  The value of a group that takes part in the match.  It is used where the group is
  part of every match of its pattern (lemma \<open>exec_sets_group\<close> below) or under a test that
  the group is set, so the second case is never reached.
\<close>

definition str :: "string option \<Rightarrow> string" where
  "str v = (case v of Some s \<Rightarrow> s | None \<Rightarrow> [])"

subsection \<open>Character classes\<close>

definition digit :: "char \<Rightarrow> bool" where
  "digit c \<longleftrightarrow> c \<in> set ''0123456789''"

definition upper :: "char \<Rightarrow> bool" where
  "upper c \<longleftrightarrow> c \<in> set ''ABCDEFGHIJKLMNOPQRSTUVWXYZ''"

definition lower :: "char \<Rightarrow> bool" where
  "lower c \<longleftrightarrow> c \<in> set ''abcdefghijklmnopqrstuvwxyz''"

text \<open>\<^verbatim>\<open>\w\<close>\<close>

definition word_char :: "char \<Rightarrow> bool" where
  "word_char c \<longleftrightarrow> upper c \<or> lower c \<or> digit c \<or> c = CHR ''_''"

text \<open>\<^verbatim>\<open>[A-Z0-9]\<close>\<close>

definition upper_or_digit :: "char \<Rightarrow> bool" where
  "upper_or_digit c \<longleftrightarrow> upper c \<or> digit c"

text \<open>\<^verbatim>\<open>\s\<close>: tab, line feed, vertical tab, form feed, carriage return, space, no-break space.\<close>

definition space_char :: "char \<Rightarrow> bool" where
  "space_char c \<longleftrightarrow>
     c \<in> set [CHR 0x09, CHR 0x0A, CHR 0x0B, CHR 0x0C, CHR 0x0D, CHR 0x20, CHR 0xA0]"

text \<open>\<^verbatim>\<open>\S\<close>\<close>

definition nonspace_char :: "char \<Rightarrow> bool" where
  "nonspace_char c \<longleftrightarrow> \<not> space_char c"

text \<open>\<^verbatim>\<open>.\<close>: anything but a line terminator.\<close>

definition dot_char :: "char \<Rightarrow> bool" where
  "dot_char c \<longleftrightarrow> c \<noteq> CHR 0x0A \<and> c \<noteq> CHR 0x0D"

subsection \<open>The four patterns\<close>

text \<open>
  \<^verbatim>\<open>(?<filePath>(\S| )+(?<fileExtension>(\.svh)|(\.sv)|(\.SV)|(\.vh)|(\.vl)|(\.v)))\<close>,
  shared by \<^verbatim>\<open>errorParserRegex\<close> and \<^verbatim>\<open>bottomMessageRegex\<close>.
\<close>

definition fileExtensionGroup :: regex where
  "fileExtensionGroup =
     Grp ''fileExtension''
       (Alt (Lit ''.svh'') (Alt (Lit ''.sv'') (Alt (Lit ''.SV'')
         (Alt (Lit ''.vh'') (Alt (Lit ''.vl'') (Lit ''.v''))))))"

definition filePathGroup :: regex where
  "filePathGroup =
     Grp ''filePath'' (Seq (Plus (Alt (Cls nonspace_char) (Lit '' ''))) fileExtensionGroup)"

text \<open>
  \<^verbatim>\<open>%(?<severity>\w+)(-(?<errorCode>[A-Z0-9]+))?: \<close>
  \<^verbatim>\<open>((?<filePath>...):((?<lineNumber>\d+):)?((?<columnNumber>\d+):)? )?(?<verboseError>.*)\<close>
\<close>

definition errorParserRegex :: regex where
  "errorParserRegex =
     seqs [Lit ''%'',
           Grp ''severity'' (Plus (Cls word_char)),
           Opt (Seq (Lit ''-'') (Grp ''errorCode'' (Plus (Cls upper_or_digit)))),
           Lit '': '',
           Opt (seqs [filePathGroup,
                      Lit '':'',
                      Opt (Seq (Grp ''lineNumber'' (Plus (Cls digit))) (Lit '':'')),
                      Opt (Seq (Grp ''columnNumber'' (Plus (Cls digit))) (Lit '':'')),
                      Lit '' '']),
           Grp ''verboseError'' (Star (Cls dot_char))]"

text \<open>\<^verbatim>\<open>/\s+: \.\.\. (?<verboseError>(\S| )+)/\<close>\<close>

definition topRelatedInfoRegex :: regex where
  "topRelatedInfoRegex =
     seqs [Plus (Cls space_char),
           Lit '': ... '',
           Grp ''verboseError'' (Plus (Alt (Cls nonspace_char) (Lit '' '')))]"

text \<open>\<^verbatim>\<open>/\|\s+(?<highlight>\^~*)/\<close>\<close>

definition highlightRegex :: regex where
  "highlightRegex =
     seqs [Lit ''|'',
           Plus (Cls space_char),
           Grp ''highlight'' (Seq (Lit ''^'') (Star (Lit ''~'')))]"

text \<open>
  \<^verbatim>\<open>/\s+((?<filePath>...):(?<lineNumber>\d+):(?<columnNumber>\d+):)? \.\.\. (?<verboseError>(\S| )+)/\<close>
\<close>

definition bottomMessageRegex :: regex where
  "bottomMessageRegex =
     seqs [Plus (Cls space_char),
           Opt (seqs [filePathGroup,
                      Lit '':'',
                      Grp ''lineNumber'' (Plus (Cls digit)),
                      Lit '':'',
                      Grp ''columnNumber'' (Plus (Cls digit)),
                      Lit '':'']),
           Lit '' ... '',
           Grp ''verboseError'' (Plus (Alt (Cls nonspace_char) (Lit '' '')))]"

section \<open>Values the callback works with\<close>

text \<open>
  A JavaScript number as the callback meets it: \<^verbatim>\<open>NaN\<close> (from \<^verbatim>\<open>Number(undefined)\<close>), an
  integer read from a run of digits, or \<^verbatim>\<open>Number.MAX_VALUE\<close>, the end column that stands for
  "to the end of the line".  Numerals are read exactly; the rounding of digit runs beyond
  the 53 bits of a double is not modelled.
\<close>

datatype jsnum = NaN | Finite int | MAX_VALUE

definition decimal :: "string \<Rightarrow> int" where
  "decimal s = foldl (\<lambda>n c. 10 * n + (int (of_char c) - 48)) 0 s"

text \<open>
  \<^verbatim>\<open>Number(g)\<close> for a group value \<^verbatim>\<open>g\<close>.  The groups it is applied to are \<^verbatim>\<open>\d+\<close>, so a
  defined value is a nonempty run of digits.
\<close>

definition Number :: "string option \<Rightarrow> jsnum" where
  "Number v =
     (case v of
        None \<Rightarrow> NaN
      | Some s \<Rightarrow> if s \<noteq> [] \<and> list_all digit s then Finite (decimal s) else NaN)"

text \<open>\<^verbatim>\<open>x - 1\<close>\<close>

fun minus1 :: "jsnum \<Rightarrow> jsnum" where
  "minus1 NaN = NaN"
| "minus1 (Finite n) = Finite (n - 1)"
| "minus1 MAX_VALUE = MAX_VALUE"

text \<open>\<^verbatim>\<open>x + s.length\<close>\<close>

fun plus_length :: "jsnum \<Rightarrow> nat \<Rightarrow> jsnum" where
  "plus_length NaN k = NaN"
| "plus_length (Finite n) k = Finite (n + int k)"
| "plus_length MAX_VALUE k = MAX_VALUE"

fun isNaN :: "jsnum \<Rightarrow> bool" where
  "isNaN NaN = True"
| "isNaN (Finite n) = False"
| "isNaN MAX_VALUE = False"

text \<open>
  The objects of the editor API are plain data here.  \<^verbatim>\<open>new vscode.Range(l1, c1, l2, c2)\<close> is
  the record of its four arguments (every range the callback builds lies on one line and
  ends at or after its start), \<^verbatim>\<open>vscode.Uri.file(name)\<close> is identified with the file name,
  and a \<^verbatim>\<open>DiagnosticCollection\<close> is a map from file names to lists of diagnostics.  What
  the editor's constructors do with the numbers they are given is not part of the
  repository and is not modelled.
\<close>

record Range =
  startLine :: jsnum
  startCharacter :: jsnum
  endLine :: jsnum
  endCharacter :: jsnum

record Location =
  uri :: string
  loc_range :: Range

record DiagnosticRelatedInformation =
  location :: Location
  message :: string

datatype DiagnosticSeverity = Error | Warning | Information

record Diagnostic =
  severity :: DiagnosticSeverity
  diag_range :: Range
  diag_message :: string
  source :: string
  code :: "string option"
  relatedInformation :: "DiagnosticRelatedInformation list"

text \<open>The calls \<^verbatim>\<open>this.logger.error(line)\<close> and \<^verbatim>\<open>this.logger.warn(line)\<close>, in order.\<close>

datatype logger_call = Logger_error string | Logger_warn string

fun logged_text :: "logger_call \<Rightarrow> string" where
  "logged_text (Logger_error s) = s"
| "logged_text (Logger_warn s) = s"

text \<open>
  \<^verbatim>\<open>filesDiag\<close> is a JavaScript \<^verbatim>\<open>Map\<close>: it keeps its keys in insertion order, so it is an
  association list.  The state of one run of the callback is \<^verbatim>\<open>filesDiag\<close> and the logger
  calls made so far.
\<close>

type_synonym files_diag = "(string \<times> Diagnostic list) list"

record lint_state =
  filesDiag :: files_diag
  logged :: "logger_call list"

datatype error = TypeError

definition startsWith :: "string \<Rightarrow> string \<Rightarrow> bool" where
  "startsWith s p \<longleftrightarrow> take (length p) s = p"

section \<open>The parser\<close>

text \<open>\<^verbatim>\<open>stderr.split(/\r?\n/g)\<close>: the text is cut at every LF and at every CR LF.\<close>

fun split_acc :: "string \<Rightarrow> string \<Rightarrow> string list" where
  "split_acc acc [] = [rev acc]"
| "split_acc acc [c] = (if c = CHR 0x0A then [rev acc, []] else [rev (c # acc)])"
| "split_acc acc (c # d # cs) =
     (if c = CHR 0x0A then rev acc # split_acc [] (d # cs)
      else if c = CHR 0x0D \<and> d = CHR 0x0A then rev acc # split_acc [] cs
      else split_acc (c # acc) (d # cs))"

definition split_lines :: "string \<Rightarrow> string list" where
  "split_lines s = split_acc [] s"

fun convertToSeverity :: "string \<Rightarrow> DiagnosticSeverity" where
  "convertToSeverity severityString =
     (if startsWith severityString ''Error'' then Error
      else if startsWith severityString ''Warning'' then Warning
      else Information)"

text \<open>
  The backward scan for the message type of a line, from \<^verbatim>\<open>lineIndex\<close> down to 0; the value
  is \<^verbatim>\<open>lastDiagMessageType\<close>, which starts as \<^verbatim>\<open>"Error"\<close>.
\<close>

fun lastDiagMessageType :: "string list \<Rightarrow> nat \<Rightarrow> string" where
  "lastDiagMessageType stderrLines 0 =
     (if startsWith (stderrLines ! 0) ''%Error'' then ''Error''
      else if startsWith (stderrLines ! 0) ''%Warning'' then ''Warning''
      else ''Error'')"
| "lastDiagMessageType stderrLines (Suc lineIndex) =
     (if startsWith (stderrLines ! Suc lineIndex) ''%Error'' then ''Error''
      else if startsWith (stderrLines ! Suc lineIndex) ''%Warning'' then ''Warning''
      else lastDiagMessageType stderrLines lineIndex)"

text \<open>\<^verbatim>\<open>filePath.replace(/(\\\\)|(\\)/g, "/")\<close>, applied on Windows only.\<close>

fun replace_backslashes :: "string \<Rightarrow> string" where
  "replace_backslashes [] = []"
| "replace_backslashes [c] = (if c = CHR 0x5C then ''/'' else [c])"
| "replace_backslashes (c # d # cs) =
     (if c = CHR 0x5C \<and> d = CHR 0x5C then CHR ''/'' # replace_backslashes cs
      else if c = CHR 0x5C then CHR ''/'' # replace_backslashes (d # cs)
      else c # replace_backslashes (d # cs))"

subsection \<open>The three scans of a block\<close>

text \<open>
  Each scan of the source runs over the lines after the header, by an offset that starts
  at 1; here it is a recursion over \<open>drop (Suc currentLineNumber) stderrLines\<close>.

  First, the additional messages that follow the header at once
  (\<^verbatim>\<open>relatedInfoMsg\<close>): the run ends at the first line that \<^verbatim>\<open>topRelatedInfoRegex\<close> does not
  match.
\<close>

fun relatedInfoMsg :: "string list \<Rightarrow> string list" where
  "relatedInfoMsg [] = []"
| "relatedInfoMsg (additionalMessageLine # rest) =
     (case exec topRelatedInfoRegex additionalMessageLine of
        None \<Rightarrow> []
      | Some m \<Rightarrow> str (groups m ''verboseError'') # relatedInfoMsg rest)"

text \<open>
  Second, the end column \<^verbatim>\<open>endColNum\<close>: the first highlight before the next line that
  starts with \<^verbatim>\<open>%\<close>, or \<^verbatim>\<open>Number.MAX_VALUE\<close>.
\<close>

fun endColNum :: "jsnum \<Rightarrow> string list \<Rightarrow> jsnum" where
  "endColNum colNum [] = MAX_VALUE"
| "endColNum colNum (currentTestLine # rest) =
     (if startsWith currentTestLine ''%'' then MAX_VALUE
      else case exec highlightRegex currentTestLine of
             Some m \<Rightarrow> plus_length colNum (length (str (groups m ''highlight'')))
           | None \<Rightarrow> endColNum colNum rest)"

text \<open>
  Third, the bottom messages.  A line that \<^verbatim>\<open>bottomMessageRegex\<close> matches pushes a message,
  at its own location when the \<^verbatim>\<open>filePath\<close> group is set and at the header's otherwise.
  A line that \<^verbatim>\<open>highlightRegex\<close> matches while the list was not empty at the start of the
  iteration replaces the range of the last message.  \<^verbatim>\<open>regex.test(line)\<close> holds exactly when
  \<^verbatim>\<open>regex.exec(line)\<close> is not \<^verbatim>\<open>null\<close>, so a case distinction on \<open>exec\<close> stands for the
  source's \<^verbatim>\<open>test\<close> followed by \<^verbatim>\<open>exec\<close> in the branch.
\<close>

definition bottomMessage :: "Location \<Rightarrow> match \<Rightarrow> DiagnosticRelatedInformation" where
  "bottomMessage mainLocation m =
     \<lparr>location =
        (if truthy (groups m ''filePath'') then
           \<lparr>uri = str (groups m ''filePath''),
            loc_range =
              \<lparr>startLine = minus1 (Number (groups m ''lineNumber'')),
               startCharacter = minus1 (Number (groups m ''columnNumber'')),
               endLine = minus1 (Number (groups m ''lineNumber'')),
               endCharacter = MAX_VALUE\<rparr>\<rparr>
         else mainLocation),
      message = str (groups m ''verboseError'')\<rparr>"

definition newRange :: "Range \<Rightarrow> string \<Rightarrow> Range" where
  "newRange r highlightString =
     \<lparr>startLine = startLine r,
      startCharacter = startCharacter r,
      endLine = startLine r,
      endCharacter = plus_length (startCharacter r) (length highlightString)\<rparr>"

definition highlightLast ::
  "DiagnosticRelatedInformation list \<Rightarrow> string \<Rightarrow> DiagnosticRelatedInformation list" where
  "highlightLast bottomMessages highlightString =
     butlast bottomMessages @
     [(last bottomMessages)
        \<lparr>location :=
           (location (last bottomMessages))
             \<lparr>loc_range :=
                newRange (loc_range (location (last bottomMessages))) highlightString\<rparr>\<rparr>]"

definition bottomStep ::
  "Location \<Rightarrow> string \<Rightarrow> DiagnosticRelatedInformation list \<Rightarrow>
     DiagnosticRelatedInformation list" where
  "bottomStep mainLocation currentTestLine bottomMessages =
     (let isBottomHighlight = (bottomMessages \<noteq> [] \<and> test highlightRegex currentTestLine);
          pushed =
            (case exec bottomMessageRegex currentTestLine of
               Some m \<Rightarrow> bottomMessages @ [bottomMessage mainLocation m]
             | None \<Rightarrow> bottomMessages)
      in if isBottomHighlight then
           (case exec highlightRegex currentTestLine of
              Some m \<Rightarrow> highlightLast pushed (str (groups m ''highlight''))
            | None \<Rightarrow> pushed)
         else pushed)"

fun bottomMessages ::
  "Location \<Rightarrow> string list \<Rightarrow> DiagnosticRelatedInformation list \<Rightarrow>
     DiagnosticRelatedInformation list" where
  "bottomMessages mainLocation [] acc = acc"
| "bottomMessages mainLocation (currentTestLine # rest) acc =
     (if startsWith currentTestLine ''%'' then acc
      else bottomMessages mainLocation rest (bottomStep mainLocation currentTestLine acc))"

subsection \<open>One line of the text\<close>

definition lineNum :: "match \<Rightarrow> jsnum" where
  "lineNum rex = minus1 (Number (groups rex ''lineNumber''))"

definition colNum :: "match \<Rightarrow> jsnum" where
  "colNum rex =
     (let c = minus1 (Number (groups rex ''columnNumber'')) in if isNaN c then Finite 0 else c)"

definition mainRange :: "match \<Rightarrow> string list \<Rightarrow> Range" where
  "mainRange rex rest =
     \<lparr>startLine = lineNum rex,
      startCharacter = colNum rex,
      endLine = lineNum rex,
      endCharacter = endColNum (colNum rex) rest\<rparr>"

text \<open>
  The diagnostic of a header: \<open>rest\<close> are the lines after it, \<open>path\<close> is the
  \<^verbatim>\<open>filePath\<close> group (with its backslashes replaced on Windows).  Its related information
  is \<^verbatim>\<open>[].concat(bottomMessages)\<close>, onto which each additional message is pushed.
\<close>

definition mainMessageDiag :: "string \<Rightarrow> match \<Rightarrow> string list \<Rightarrow> Diagnostic" where
  "mainMessageDiag path rex rest =
     (let currentMsgLocation = \<lparr>uri = path, loc_range = mainRange rex rest\<rparr>
      in \<lparr>severity = convertToSeverity (str (groups rex ''severity'')),
          diag_range = mainRange rex rest,
          diag_message = str (groups rex ''verboseError''),
          source = ''verilator'',
          code = groups rex ''errorCode'',
          relatedInformation =
            bottomMessages currentMsgLocation rest [] @
            map (\<lambda>message. \<lparr>location = currentMsgLocation, message = message\<rparr>)
                (relatedInfoMsg rest)\<rparr>)"

text \<open>\<^verbatim>\<open>filesDiag.has\<close>, \<^verbatim>\<open>filesDiag.set(path, [])\<close> for a new key, \<^verbatim>\<open>filesDiag.get(path).push(d)\<close>.\<close>

definition has :: "files_diag \<Rightarrow> string \<Rightarrow> bool" where
  "has fd path \<longleftrightarrow> map_of fd path \<noteq> None"

definition set_empty :: "files_diag \<Rightarrow> string \<Rightarrow> files_diag" where
  "set_empty fd path = fd @ [(path, [])]"

definition push :: "files_diag \<Rightarrow> string \<Rightarrow> Diagnostic \<Rightarrow> files_diag" where
  "push fd path d = map (\<lambda>e. if fst e = path then (fst e, snd e @ [d]) else e) fd"

text \<open>
  The body of the \<^verbatim>\<open>forEach\<close> callback for the line at index \<open>currentLineNumber\<close>.
  \<^verbatim>\<open>errorParserRegex.exec(line)\<close> is \<^verbatim>\<open>null\<close> when the pattern matches nowhere in the line,
  and reading \<^verbatim>\<open>rex.groups\<close> then throws a \<^verbatim>\<open>TypeError\<close>, before anything is logged for the
  line.
\<close>

definition lint_line :: "bool \<Rightarrow> string list \<Rightarrow> nat \<Rightarrow> lint_state \<Rightarrow> error + lint_state" where
  "lint_line isWindows stderrLines currentLineNumber st =
     (let line = stderrLines ! currentLineNumber in
      if \<not> startsWith line ''%'' then
        Inr (st\<lparr>logged := logged st @
                   [if lastDiagMessageType stderrLines currentLineNumber = ''Warning''
                    then Logger_warn line else Logger_error line]\<rparr>)
      else
        case exec errorParserRegex line of
          None \<Rightarrow> Inl TypeError
        | Some rex \<Rightarrow>
            (let st1 = st\<lparr>logged := logged st @
                           [if groups rex ''severity'' = Some ''Error'' then Logger_error line
                            else if groups rex ''severity'' = Some ''Warning'' then Logger_warn line
                            else Logger_error line]\<rparr>
             in if \<not> truthy (groups rex ''filePath'') then Inr st1
                else
                  (let path = (if isWindows then replace_backslashes (str (groups rex ''filePath''))
                               else str (groups rex ''filePath''));
                       st2 = (if has (filesDiag st1) path then st1
                              else st1\<lparr>filesDiag := set_empty (filesDiag st1) path\<rparr>)
                   in if 0 < length (matched rex) then
                        (if isNaN (lineNum rex) then Inr st2
                         else Inr (st2\<lparr>filesDiag :=
                                push (filesDiag st2) path
                                  (mainMessageDiag path rex
                                     (drop (Suc currentLineNumber) stderrLines))\<rparr>))
                      else Inr st2)))"

subsection \<open>One run of the callback\<close>

text \<open>
  \<^verbatim>\<open>forEach\<close> over the lines: an exception in the body ends the loop, and the model keeps
  the state reached before the line that threw.
\<close>

fun lint_lines ::
  "bool \<Rightarrow> string list \<Rightarrow> nat list \<Rightarrow> lint_state \<Rightarrow> (error \<times> lint_state) + lint_state" where
  "lint_lines isWindows stderrLines [] st = Inr st"
| "lint_lines isWindows stderrLines (i # is) st =
     (case lint_line isWindows stderrLines i st of
        Inl e \<Rightarrow> Inl (e, st)
      | Inr st' \<Rightarrow> lint_lines isWindows stderrLines is st')"

definition parse :: "bool \<Rightarrow> string \<Rightarrow> (error \<times> lint_state) + lint_state" where
  "parse isWindows stderr =
     (let stderrLines = split_lines stderr
      in lint_lines isWindows stderrLines [0..<length stderrLines]
           \<lparr>filesDiag = [], logged = []\<rparr>)"

text \<open>
  After the loop: \<^verbatim>\<open>this.diagnosticCollection.clear()\<close>, then one
  \<^verbatim>\<open>this.diagnosticCollection.set(fileURI, issuesArray)\<close> for each entry of \<^verbatim>\<open>filesDiag\<close>.
  When the loop threw, neither is reached and the collection stays as it was.
\<close>

type_synonym DiagnosticCollection = "string \<Rightarrow> Diagnostic list option"

definition publish :: "files_diag \<Rightarrow> DiagnosticCollection" where
  "publish fd = fold (\<lambda>e c. c(fst e \<mapsto> snd e)) fd Map.empty"

record callback_result =
  thrown :: "error option"
  diagnosticCollection :: DiagnosticCollection
  logger :: "logger_call list"

definition callback :: "bool \<Rightarrow> string \<Rightarrow> DiagnosticCollection \<Rightarrow> callback_result" where
  "callback isWindows stderr collection =
     (case parse isWindows stderr of
        Inl (e, st) \<Rightarrow>
          \<lparr>thrown = Some e, diagnosticCollection = collection, logger = logged st\<rparr>
      | Inr st \<Rightarrow>
          \<lparr>thrown = None, diagnosticCollection = publish (filesDiag st), logger = logged st\<rparr>)"

text \<open>What a consumer reads from the collection for a file: no entry reads as no diagnostics.\<close>

definition visible :: "DiagnosticCollection \<Rightarrow> string \<Rightarrow> Diagnostic list" where
  "visible collection path = (case collection path of None \<Rightarrow> [] | Some ds \<Rightarrow> ds)"

text \<open>
  What a highlight never changes in a related message: its file, the start of its range and
  its text.
\<close>

definition anchor :: "DiagnosticRelatedInformation \<Rightarrow> string \<times> jsnum \<times> jsnum \<times> string" where
  "anchor r =
     (uri (location r), startLine (loc_range (location r)),
      startCharacter (loc_range (location r)), message r)"

text \<open>
  The text of the message a line yields under a pattern with a \<^verbatim>\<open>verboseError\<close> group; used
  to state the order of the related messages by the lines they come from.
\<close>

definition verboseError_of :: "regex \<Rightarrow> string \<Rightarrow> string" where
  "verboseError_of r l =
     (case exec r l of Some m \<Rightarrow> str (groups m ''verboseError'') | None \<Rightarrow> [])"

text \<open>Every diagnostic of a state, whatever its file.\<close>

definition diagnostics :: "lint_state \<Rightarrow> Diagnostic list" where
  "diagnostics st = concat (map snd (filesDiag st))"

text \<open>
  A pattern sets a group in every match when the group lies on its spine: under sequences
  and groups only, never under an option, an alternation or a repetition.
\<close>

fun sets_group :: "string \<Rightarrow> regex \<Rightarrow> bool" where
  "sets_group n (Grp k a) = (n = k \<or> sets_group n a)"
| "sets_group n (Seq a b) = (sets_group n a \<or> sets_group n b)"
| "sets_group n (Lit w) = False"
| "sets_group n (Cls p) = False"
| "sets_group n (Alt a b) = False"
| "sets_group n (Opt a) = False"
| "sets_group n (Star a) = False"


section \<open>Groups that every match sets\<close>

lemma bt_keeps_group:
  "st' \<in> set (bt r st) \<Longrightarrow> snd st n \<noteq> None \<Longrightarrow> snd st' n \<noteq> None"
proof (induction r st arbitrary: st' rule: bt.induct)
  case (1 w st)
  then show ?case by (auto split: if_splits)
next
  case (2 p st)
  then show ?case by (auto split: list.splits if_splits)
next
  case (3 a b st)
  from "3.prems"(1) obtain mid where mid: "mid \<in> set (bt a st)" "st' \<in> set (bt b mid)"
    by auto
  from "3.IH"(1)[OF mid(1) "3.prems"(2)] have "snd mid n \<noteq> None" .
  from "3.IH"(2)[OF mid(1) mid(2) this] show ?case .
next
  case (4 a b st)
  from "4.prems"(1) have "st' \<in> set (bt a st) \<or> st' \<in> set (bt b st)" by simp
  then show ?case using "4.IH" "4.prems"(2) by blast
next
  case (5 a st)
  from "5.prems"(1) have "st' \<in> set (bt a st) \<or> st' = st" by auto
  then show ?case using "5.IH" "5.prems"(2) by blast
next
  case (6 a st)
  show ?case
  proof (cases "st' = st")
    case True
    with "6.prems" show ?thesis by simp
  next
    case False
    with "6.prems"(1) have "st' \<in> (\<Union>mid \<in> set (bt a st).
        set (if length (fst mid) < length (fst st) then bt (Star a) mid else []))"
      by (subst (asm) bt.simps(6)) auto
    then obtain mid where mid: "mid \<in> set (bt a st)"
      "st' \<in> set (if length (fst mid) < length (fst st) then bt (Star a) mid else [])"
      by blast
    from mid(2) have less: "length (fst mid) < length (fst st)"
      by (cases "length (fst mid) < length (fst st)") simp_all
    with mid(2) have star: "st' \<in> set (bt (Star a) mid)" by simp
    from "6.IH"(1)[OF mid(1) "6.prems"(2)] have "snd mid n \<noteq> None" .
    from "6.IH"(2)[OF mid(1) less star this] show ?thesis .
  qed
next
  case (7 k a st)
  from "7.prems"(1) have "st' \<in> (\<lambda>mid. (fst mid,
      (snd mid)(k \<mapsto> take (length (fst st) - length (fst mid)) (fst st)))) ` set (bt a st)"
    by simp
  then obtain mid where mid: "mid \<in> set (bt a st)"
    "st' = (fst mid, (snd mid)(k \<mapsto> take (length (fst st) - length (fst mid)) (fst st)))"
    by blast
  from "7.IH"[OF mid(1) "7.prems"(2)] have "snd mid n \<noteq> None" .
  with mid(2) show ?case by simp
qed

lemma bt_sets_group:
  "sets_group n r \<Longrightarrow> st' \<in> set (bt r st) \<Longrightarrow> snd st' n \<noteq> None"
proof (induction r arbitrary: st st')
  case (Seq a b)
  from Seq.prems(2) obtain mid where mid: "mid \<in> set (bt a st)" "st' \<in> set (bt b mid)"
    by auto
  show ?case
  proof (cases "sets_group n b")
    case True
    from Seq.IH(2)[OF True mid(2)] show ?thesis .
  next
    case False
    with Seq.prems(1) have "sets_group n a" by simp
    from Seq.IH(1)[OF this mid(1)] have "snd mid n \<noteq> None" .
    from bt_keeps_group[OF mid(2) this] show ?thesis .
  qed
next
  case (Grp k a)
  from Grp.prems(2) have "st' \<in> (\<lambda>mid. (fst mid,
      (snd mid)(k \<mapsto> take (length (fst st) - length (fst mid)) (fst st)))) ` set (bt a st)"
    by simp
  then obtain mid where mid: "mid \<in> set (bt a st)"
    "st' = (fst mid, (snd mid)(k \<mapsto> take (length (fst st) - length (fst mid)) (fst st)))"
    by blast
  show ?case
  proof (cases "n = k")
    case True
    with mid(2) show ?thesis by simp
  next
    case False
    with Grp.prems(1) have "sets_group n a" by simp
    from Grp.IH[OF this mid(1)] have "snd mid n \<noteq> None" .
    with mid(2) False show ?thesis by simp
  qed
qed simp_all

lemma exec_sets_group:
  "sets_group n r \<Longrightarrow> exec r s = Some m \<Longrightarrow> groups m n \<noteq> None"
proof (induction r s rule: exec.induct)
  case (1 r s)
  note ex = "1.prems"(2)[unfolded exec.simps[of r s]]
  show ?case
  proof (cases "bt r (s, Map.empty)")
    case Nil
    with 1 ex show ?thesis by (cases s) auto
  next
    case (Cons st' sts)
    then have "st' \<in> set (bt r (s, Map.empty))" by simp
    with "1.prems"(1) have "snd st' n \<noteq> None" by (rule bt_sets_group)
    with Cons ex show ?thesis by auto
  qed
qed

lemma sets_group_patterns:
  "sets_group ''highlight'' highlightRegex"
  "sets_group ''severity'' errorParserRegex"
  "sets_group ''verboseError'' errorParserRegex"
  "sets_group ''verboseError'' topRelatedInfoRegex"
  "sets_group ''verboseError'' bottomMessageRegex"
  by (simp_all add: highlightRegex_def errorParserRegex_def topRelatedInfoRegex_def
        bottomMessageRegex_def Plus_def)

lemma highlight_group_set:
  "exec highlightRegex s = Some m \<Longrightarrow> groups m ''highlight'' \<noteq> None"
  by (rule exec_sets_group[OF sets_group_patterns(1)])

lemma verboseError_group_set:
  "exec errorParserRegex s = Some m \<Longrightarrow> groups m ''verboseError'' \<noteq> None"
  "exec topRelatedInfoRegex s = Some m \<Longrightarrow> groups m ''verboseError'' \<noteq> None"
  "exec bottomMessageRegex s = Some m \<Longrightarrow> groups m ''verboseError'' \<noteq> None"
  by (rule exec_sets_group[OF sets_group_patterns(3)], assumption,
      rule exec_sets_group[OF sets_group_patterns(4)], assumption,
      rule exec_sets_group[OF sets_group_patterns(5)], assumption)

lemma severity_group_set:
  "exec errorParserRegex s = Some m \<Longrightarrow> groups m ''severity'' \<noteq> None"
  by (rule exec_sets_group[OF sets_group_patterns(2)])


section \<open>Facts about one line and about the loop\<close>

lemma lint_line_plain:
  assumes "\<not> startsWith (ls ! i) ''%''"
  shows "lint_line w ls i st =
         Inr (st\<lparr>logged := logged st @
                [if lastDiagMessageType ls i = ''Warning'' then Logger_warn (ls ! i)
                 else Logger_error (ls ! i)]\<rparr>)"
  using assms by (simp add: lint_line_def Let_def)

lemma lint_line_null:
  assumes "startsWith (ls ! i) ''%''" and "exec errorParserRegex (ls ! i) = None"
  shows "lint_line w ls i st = Inl TypeError"
  using assms by (simp add: lint_line_def Let_def)

lemma lint_line_logged:
  assumes "lint_line w ls i st = Inr st'"
  shows "map logged_text (logged st') = map logged_text (logged st) @ [ls ! i]"
  using assms
  by (auto simp: lint_line_def Let_def split: if_splits option.splits)

lemma lint_lines_logged:
  "lint_lines w ls is st = Inr st' \<Longrightarrow>
   map logged_text (logged st') = map logged_text (logged st) @ map (\<lambda>i. ls ! i) is"
proof (induction "is" arbitrary: st)
  case Nil
  then show ?case by simp
next
  case (Cons i "is")
  from Cons.prems obtain st1 where st1: "lint_line w ls i st = Inr st1"
    and rest: "lint_lines w ls is st1 = Inr st'"
    by (auto split: sum.splits)
  from Cons.IH[OF rest] lint_line_logged[OF st1] show ?case by simp
qed

lemma lint_line_dropped:
  assumes "startsWith (ls ! i) ''%''" and "exec errorParserRegex (ls ! i) = Some rex"
    and "groups rex ''lineNumber'' = None"
  shows "\<exists>st'. lint_line w ls i st = Inr st' \<and> diagnostics st' = diagnostics st"
  using assms
  by (simp add: lint_line_def Let_def lineNum_def Number_def diagnostics_def set_empty_def)

lemma lint_lines_plain:
  assumes "\<forall>i \<in> set is. \<not> startsWith (ls ! i) ''%''"
  shows "\<exists>st'. lint_lines w ls is st = Inr st' \<and> filesDiag st' = filesDiag st"
  using assms
proof (induction "is" arbitrary: st)
  case Nil
  then show ?case by simp
next
  case (Cons i "is")
  from Cons.prems have "\<not> startsWith (ls ! i) ''%''" by simp
  from lint_line_plain[OF this, of w st] obtain c
    where c: "lint_line w ls i st = Inr (st\<lparr>logged := logged st @ [c]\<rparr>)" by simp
  from Cons.prems have "\<forall>i \<in> set is. \<not> startsWith (ls ! i) ''%''" by simp
  from Cons.IH[OF this, of "st\<lparr>logged := logged st @ [c]\<rparr>"] c show ?case by simp
qed

section \<open>Facts about the scans of a block\<close>

lemma bottomMessages_append:
  "\<forall>x \<in> set pre. \<not> startsWith x ''%'' \<Longrightarrow>
   bottomMessages hdr (pre @ post) acc = bottomMessages hdr post (bottomMessages hdr pre acc)"
  by (induction pre arbitrary: acc) simp_all

lemma bottomMessages_snoc:
  assumes "\<forall>x \<in> set pre. \<not> startsWith x ''%''" and "\<not> startsWith l ''%''"
  shows "bottomMessages hdr (pre @ [l]) acc = bottomStep hdr l (bottomMessages hdr pre acc)"
  using assms by (simp add: bottomMessages_append)

lemma endColNum_first_highlight:
  assumes "\<forall>x \<in> set pre. \<not> startsWith x ''%'' \<and> exec highlightRegex x = None"
    and "\<not> startsWith l ''%''" and "exec highlightRegex l = Some m"
  shows "endColNum c (pre @ l # post) = plus_length c (length (str (groups m ''highlight'')))"
  using assms by (induction pre) simp_all

lemma highlightLast_anchor:
  "bs \<noteq> [] \<Longrightarrow> map anchor (highlightLast bs h) = map anchor bs"
proof -
  assume ne: "bs \<noteq> []"
  then have "map anchor bs = map anchor (butlast bs @ [last bs])" by simp
  also have "\<dots> = map anchor (highlightLast bs h)"
    by (simp add: highlightLast_def anchor_def newRange_def)
  finally show ?thesis by simp
qed



lemma bottomStep_anchor:
  "map anchor (bottomStep hdr x acc) =
   map anchor acc @
   (case exec bottomMessageRegex x of Some m \<Rightarrow> [anchor (bottomMessage hdr m)] | None \<Rightarrow> [])"
proof (cases "exec bottomMessageRegex x")
  case None
  then show ?thesis
    by (auto simp: bottomStep_def Let_def highlightLast_anchor split: option.splits)
next
  case (Some m)
  have "map anchor (highlightLast (acc @ [bottomMessage hdr m]) h) =
        map anchor (acc @ [bottomMessage hdr m])" for h
    by (rule highlightLast_anchor) simp
  with Some show ?thesis
    by (auto simp: bottomStep_def Let_def split: option.splits)
qed







section \<open>Facts about the state after a line and after the loop\<close>

lemma lint_line_header:
  assumes "startsWith (ls ! i) ''%''" and "exec errorParserRegex (ls ! i) = Some rex"
  shows "\<exists>st'. lint_line w ls i st = Inr st' \<and>
           filesDiag st' =
             (if \<not> truthy (groups rex ''filePath'') then filesDiag st
              else let path = (if w then replace_backslashes (str (groups rex ''filePath''))
                               else str (groups rex ''filePath''));
                       fd = (if has (filesDiag st) path then filesDiag st
                             else set_empty (filesDiag st) path)
                   in if 0 < length (matched rex) \<and> \<not> isNaN (lineNum rex)
                      then push fd path (mainMessageDiag path rex (drop (Suc i) ls))
                      else fd)"
  using assms by (simp add: lint_line_def Let_def)

lemma lint_line_filesDiag:
  assumes "lint_line w ls i st = Inr st'"
  shows "\<exists>fd. (fd = filesDiag st \<or>
               (\<exists>p. fd = set_empty (filesDiag st) p \<and> \<not> has (filesDiag st) p)) \<and>
              (filesDiag st' = fd \<or>
               (\<exists>path rex. exec errorParserRegex (ls ! i) = Some rex \<and>
                  filesDiag st' = push fd path (mainMessageDiag path rex (drop (Suc i) ls))))"
proof (cases "startsWith (ls ! i) ''%''")
  case False
  from lint_line_plain[OF False, of w st] assms have "filesDiag st' = filesDiag st"
    by auto
  then show ?thesis by blast
next
  case True
  with assms obtain rex where rex: "exec errorParserRegex (ls ! i) = Some rex"
    by (cases "exec errorParserRegex (ls ! i)") (simp_all add: lint_line_null)
  define path where "path = (if w then replace_backslashes (str (groups rex ''filePath''))
                               else str (groups rex ''filePath''))"
  define fd where "fd = (if has (filesDiag st) path then filesDiag st
                             else set_empty (filesDiag st) path)"
  define emit where "emit \<longleftrightarrow> 0 < length (matched rex) \<and> \<not> isNaN (lineNum rex)"
  have fd: "fd = filesDiag st \<or> (\<exists>p. fd = set_empty (filesDiag st) p \<and> \<not> has (filesDiag st) p)"
    unfolding fd_def by auto
  from lint_line_header[OF True rex, of w st] assms
  have eq: "filesDiag st' =
             (if \<not> truthy (groups rex ''filePath'') then filesDiag st
              else if emit
                   then push fd path (mainMessageDiag path rex (drop (Suc i) ls))
                   else fd)"
    by (auto simp: Let_def path_def fd_def emit_def)
  show ?thesis
  proof (cases "truthy (groups rex ''filePath'')")
    case False
    with eq have "filesDiag st' = filesDiag st" by simp
    then show ?thesis by blast
  next
    case truthy: True
    show ?thesis
    proof (cases emit)
      case True
      with eq truthy have "filesDiag st' =
          push fd path (mainMessageDiag path rex (drop (Suc i) ls))" by simp
      with fd rex show ?thesis by blast
    next
      case False
      with eq truthy have "filesDiag st' = fd" by simp
      with fd show ?thesis by blast
    qed
  qed
qed

lemma lint_lines_invariant:
  "(\<forall>i \<in> set is. \<forall>st st'. P st \<longrightarrow> lint_line w ls i st = Inr st' \<longrightarrow> P st') \<Longrightarrow>
   P st \<Longrightarrow> lint_lines w ls is st = Inr st' \<Longrightarrow> P st'"
proof (induction "is" arbitrary: st)
  case Nil
  then show ?case by simp
next
  case (Cons i "is")
  from Cons.prems(3) obtain st1 where st1: "lint_line w ls i st = Inr st1"
    and rest: "lint_lines w ls is st1 = Inr st'"
    by (auto split: sum.splits)
  have "i \<in> set (i # is)" by simp
  from bspec[OF Cons.prems(1) this] Cons.prems(2) st1 have P1: "P st1" by blast
  have "\<forall>i \<in> set is. \<forall>st st'. P st \<longrightarrow> lint_line w ls i st = Inr st' \<longrightarrow> P st'"
    by (intro ballI) (rule bspec[OF Cons.prems(1)], simp)
  from Cons.IH[OF this P1 rest] show ?case .
qed

lemma set_push:
  "(path, ds) \<in> set (push fd p d) \<Longrightarrow> d' \<in> set ds \<Longrightarrow>
   (\<exists>ds0. (path, ds0) \<in> set fd \<and> (d' \<in> set ds0 \<or> (path = p \<and> d' = d)))"
  by (auto simp: push_def split: if_splits)

lemma distinct_push: "map fst (push fd p d) = map fst fd"
  by (induction fd) (simp_all add: push_def)

lemma keys_push: "fst ` set (push fd p d) = fst ` set fd"
  using distinct_push[of fd p d] by (metis set_map)

lemma has_iff: "has fd p \<longleftrightarrow> p \<in> fst ` set fd"
  by (simp add: has_def map_of_eq_None_iff)

lemma lint_line_distinct:
  assumes "lint_line w ls i st = Inr st'" and "distinct (map fst (filesDiag st))"
  shows "distinct (map fst (filesDiag st'))"
proof -
  from lint_line_filesDiag[OF assms(1)] obtain fd where
    fd: "fd = filesDiag st \<or> (\<exists>p. fd = set_empty (filesDiag st) p \<and> \<not> has (filesDiag st) p)"
    and st': "filesDiag st' = fd \<or>
       (\<exists>path rex. exec errorParserRegex (ls ! i) = Some rex \<and>
          filesDiag st' = push fd path (mainMessageDiag path rex (drop (Suc i) ls)))"
    by blast
  from fd assms(2) have "distinct (map fst fd)"
    by (auto simp: set_empty_def has_iff)
  with st' show ?thesis by (auto simp: distinct_push)
qed

lemma lint_line_has:
  assumes "lint_line w ls i st = Inr st'" and "has (filesDiag st) p"
  shows "has (filesDiag st') p"
proof -
  from lint_line_filesDiag[OF assms(1)] obtain fd where
    fd: "fd = filesDiag st \<or> (\<exists>p. fd = set_empty (filesDiag st) p \<and> \<not> has (filesDiag st) p)"
    and st': "filesDiag st' = fd \<or>
       (\<exists>path rex. exec errorParserRegex (ls ! i) = Some rex \<and>
          filesDiag st' = push fd path (mainMessageDiag path rex (drop (Suc i) ls)))"
    by blast
  from fd assms(2) have "p \<in> fst ` set fd"
    by (auto simp: set_empty_def has_iff)
  moreover from st' have "fst ` set (filesDiag st') = fst ` set fd"
    by (elim disjE exE conjE) (simp_all add: keys_push)
  ultimately show ?thesis by (simp add: has_iff)
qed

lemma lint_lines_append:
  "lint_lines w ls (xs @ ys) st =
   (case lint_lines w ls xs st of Inl e \<Rightarrow> Inl e | Inr st1 \<Rightarrow> lint_lines w ls ys st1)"
  by (induction xs arbitrary: st) (auto split: sum.splits)

lemma parse_distinct:
  assumes "parse w stderr = Inr st"
  shows "distinct (map fst (filesDiag st))"
proof -
  from assms have run: "lint_lines w (split_lines stderr) [0..<length (split_lines stderr)]
      \<lparr>filesDiag = [], logged = []\<rparr> = Inr st"
    by (simp add: parse_def Let_def)
  show ?thesis
    by (rule lint_lines_invariant[where P = "\<lambda>st. distinct (map fst (filesDiag st))", OF _ _ run])
       (simp_all add: lint_line_distinct)
qed

lemma fold_set_collection:
  "fold (\<lambda>e c. c(fst e \<mapsto> snd e)) fd c0 = c0 ++ map_of (rev fd)"
proof (induction fd arbitrary: c0)
  case Nil
  then show ?case by simp
next
  case (Cons e fd)
  have "fold (\<lambda>e c. c(fst e \<mapsto> snd e)) (e # fd) c0 =
        fold (\<lambda>e c. c(fst e \<mapsto> snd e)) fd (c0(fst e \<mapsto> snd e))"
    by simp
  also have "\<dots> = c0(fst e \<mapsto> snd e) ++ map_of (rev fd)"
    by (rule Cons.IH)
  also have "\<dots> = c0 ++ ([fst e \<mapsto> snd e] ++ map_of (rev fd))"
    by (simp add: map_add_assoc[symmetric])
  also have "\<dots> = c0 ++ map_of (rev (e # fd))"
    by (cases e) simp
  finally show ?case .
qed

lemma map_of_rev_distinct:
  "distinct (map fst fd) \<Longrightarrow> map_of (rev fd) = map_of fd"
proof (induction fd)
  case Nil
  then show ?case by simp
next
  case (Cons e fd)
  then have IH: "map_of (rev fd) = map_of fd" and new: "map_of fd (fst e) = None"
    by (simp_all add: map_of_eq_None_iff)
  have "map_of (rev (e # fd)) = [fst e \<mapsto> snd e] ++ map_of fd"
    using IH by (cases e) simp
  also have "\<dots> = (map_of fd)(fst e \<mapsto> snd e)"
    using new by (auto simp: map_add_def fun_eq_iff split: option.splits)
  finally show ?case by (cases e) simp
qed

lemma publish_map_of:
  "distinct (map fst fd) \<Longrightarrow> publish fd = map_of fd"
  by (simp add: publish_def fold_set_collection map_of_rev_distinct)

lemma lint_lines_has:
  assumes "lint_lines w ls is st = Inr st'" and "has (filesDiag st) p"
  shows "has (filesDiag st') p"
  by (rule lint_lines_invariant[where P = "\<lambda>st. has (filesDiag st) p", OF _ assms(2) assms(1)])
     (simp add: lint_line_has)

section \<open>The related messages by their lines; the collection after a pass\<close>

lemma message_anchor: "message r = snd (snd (snd (anchor r)))"
  by (simp add: anchor_def)

lemma bottomStep_message:
  "map message (bottomStep hdr x acc) =
   map message acc @
   (if test bottomMessageRegex x then [verboseError_of bottomMessageRegex x] else [])"
proof -
  have "map message (bottomStep hdr x acc) =
        map (\<lambda>a. snd (snd (snd a))) (map anchor (bottomStep hdr x acc))"
    by (simp add: message_anchor)
  also have "\<dots> = map (\<lambda>a. snd (snd (snd a)))
      (map anchor acc @
       (case exec bottomMessageRegex x of
          Some m \<Rightarrow> [anchor (bottomMessage hdr m)] | None \<Rightarrow> []))"
    by (simp only: bottomStep_anchor)
  also have "\<dots> = map message acc @
      (if test bottomMessageRegex x then [verboseError_of bottomMessageRegex x] else [])"
    by (cases "exec bottomMessageRegex x")
       (simp_all add: anchor_def test_def verboseError_of_def bottomMessage_def)
  finally show ?thesis .
qed

lemma bottomMessages_message:
  "map message (bottomMessages hdr xs acc) =
   map message acc @
   map (verboseError_of bottomMessageRegex)
     (filter (test bottomMessageRegex) (takeWhile (\<lambda>l. \<not> startsWith l ''%'') xs))"
  by (induction xs arbitrary: acc) (simp_all add: bottomStep_message)

lemma relatedInfoMsg_takeWhile:
  "relatedInfoMsg xs =
   map (verboseError_of topRelatedInfoRegex) (takeWhile (test topRelatedInfoRegex) xs)"
  by (induction xs) (simp_all add: test_def verboseError_of_def split: option.splits)

lemma related_messages_in_order:
  "map message (relatedInformation (mainMessageDiag path rex rest)) =
   map (verboseError_of bottomMessageRegex)
     (filter (test bottomMessageRegex) (takeWhile (\<lambda>l. \<not> startsWith l ''%'') rest)) @
   map (verboseError_of topRelatedInfoRegex) (takeWhile (test topRelatedInfoRegex) rest)"
  by (simp add: mainMessageDiag_def Let_def bottomMessages_message relatedInfoMsg_takeWhile
        comp_def)

lemma emitted_diagnostic_origin:
  assumes "parse w stderr = Inr st" and "(path, ds) \<in> set (filesDiag st)" and "d \<in> set ds"
  shows "\<exists>i rex. i < length (split_lines stderr) \<and>
           exec errorParserRegex (split_lines stderr ! i) = Some rex \<and>
           d = mainMessageDiag path rex (drop (Suc i) (split_lines stderr))"
proof -
  let ?ls = "split_lines stderr"
  let ?Q = "\<lambda>path d. \<exists>i rex. i < length ?ls \<and>
           exec errorParserRegex (?ls ! i) = Some rex \<and>
           d = mainMessageDiag path rex (drop (Suc i) ?ls)"
  let ?P = "\<lambda>st. \<forall>path ds d. (path, ds) \<in> set (filesDiag st) \<longrightarrow> d \<in> set ds \<longrightarrow> ?Q path d"
  from assms(1) have run: "lint_lines w ?ls [0..<length ?ls]
      \<lparr>filesDiag = [], logged = []\<rparr> = Inr st"
    by (simp add: parse_def Let_def)
  have "?P st"
  proof (rule lint_lines_invariant[where P = ?P, OF _ _ run], intro ballI allI impI)
    show "?P \<lparr>filesDiag = [], logged = []\<rparr>" by simp
  next
    fix i st0 st1 path ds d
    assume i: "i \<in> set [0..<length ?ls]" and P0: "?P st0"
      and line: "lint_line w ?ls i st0 = Inr st1"
      and mem: "(path, ds) \<in> set (filesDiag st1)" and d: "d \<in> set ds"
    from lint_line_filesDiag[OF line] obtain fd where
      fd: "fd = filesDiag st0 \<or> (\<exists>p. fd = set_empty (filesDiag st0) p \<and> \<not> has (filesDiag st0) p)"
      and st1: "filesDiag st1 = fd \<or>
         (\<exists>path rex. exec errorParserRegex (?ls ! i) = Some rex \<and>
            filesDiag st1 = push fd path (mainMessageDiag path rex (drop (Suc i) ?ls)))"
      by blast
    from fd P0 have Pfd: "\<forall>path ds d. (path, ds) \<in> set fd \<longrightarrow> d \<in> set ds \<longrightarrow> ?Q path d"
      by (auto simp: set_empty_def)
    show "?Q path d"
    proof -
      from st1 show "?Q path d"
      proof
        assume "filesDiag st1 = fd"
        with mem d Pfd show ?thesis by blast
      next
        assume "\<exists>p rex. exec errorParserRegex (?ls ! i) = Some rex \<and>
            filesDiag st1 = push fd p (mainMessageDiag p rex (drop (Suc i) ?ls))"
        then obtain p rex where rex: "exec errorParserRegex (?ls ! i) = Some rex"
          and pushed: "filesDiag st1 = push fd p (mainMessageDiag p rex (drop (Suc i) ?ls))"
          by blast
        from set_push[OF mem[unfolded pushed] d] obtain ds0 where
          ds0: "(path, ds0) \<in> set fd"
            "d \<in> set ds0 \<or> (path = p \<and> d = mainMessageDiag p rex (drop (Suc i) ?ls))"
          by blast
        from ds0(2) show ?thesis
        proof
          assume "d \<in> set ds0"
          with ds0(1) Pfd show ?thesis by blast
        next
          assume new: "path = p \<and> d = mainMessageDiag p rex (drop (Suc i) ?ls)"
          from i have "i < length ?ls" by simp
          with new rex show ?thesis by blast
        qed
      qed
    qed
  qed
  with assms(2,3) show ?thesis by blast
qed

lemma completed_pass_replaces_collection:
  assumes "parse w stderr = Inr st"
  shows "diagnosticCollection (callback w stderr collection) = map_of (filesDiag st)"
  using assms publish_map_of[OF parse_distinct[OF assms]]
  by (simp add: callback_def)

lemma set_push_other:
  "p \<noteq> path \<Longrightarrow> (path, ds) \<in> set (push fd p d) \<Longrightarrow> (path, ds) \<in> set fd"
  by (auto simp: push_def split: if_splits)

lemma lint_line_keeps_empty:
  assumes line: "lint_line w ls j st0 = Inr st1"
    and dropped: "\<forall>rex'. startsWith (ls ! j) ''%'' \<and> exec errorParserRegex (ls ! j) = Some rex' \<and>
        truthy (groups rex' ''filePath'') \<and>
        (if w then replace_backslashes (str (groups rex' ''filePath''))
         else str (groups rex' ''filePath'')) = path \<longrightarrow> isNaN (lineNum rex')"
    and P0: "\<forall>ds. (path, ds) \<in> set (filesDiag st0) \<longrightarrow> ds = []"
  shows "\<forall>ds. (path, ds) \<in> set (filesDiag st1) \<longrightarrow> ds = []"
proof (cases "startsWith (ls ! j) ''%''")
  case False
  from lint_line_plain[OF False, of w st0] line have "filesDiag st1 = filesDiag st0"
    by auto
  with P0 show ?thesis by simp
next
  case True
  with line obtain rex' where rex': "exec errorParserRegex (ls ! j) = Some rex'"
    by (cases "exec errorParserRegex (ls ! j)") (simp_all add: lint_line_null)
  define p where "p = (if w then replace_backslashes (str (groups rex' ''filePath''))
                               else str (groups rex' ''filePath''))"
  define fd where "fd = (if has (filesDiag st0) p then filesDiag st0
                             else set_empty (filesDiag st0) p)"
  define emit where "emit \<longleftrightarrow> 0 < length (matched rex') \<and> \<not> isNaN (lineNum rex')"
  have Pfd: "\<forall>ds. (path, ds) \<in> set fd \<longrightarrow> ds = []"
    using P0 by (auto simp: fd_def set_empty_def)
  from lint_line_header[OF True rex', of w st0] line
  have eq: "filesDiag st1 =
             (if \<not> truthy (groups rex' ''filePath'') then filesDiag st0
              else if emit
                   then push fd p (mainMessageDiag p rex' (drop (Suc j) ls))
                   else fd)"
    by (auto simp: Let_def p_def fd_def emit_def)
  show ?thesis
  proof (cases "truthy (groups rex' ''filePath'')")
    case False
    with eq P0 show ?thesis by simp
  next
    case truthy: True
    show ?thesis
    proof (cases emit)
      case False
      with eq truthy Pfd show ?thesis by simp
    next
      case emit: True
      then have "\<not> isNaN (lineNum rex')" by (simp add: emit_def)
      with dropped True rex' truthy have "p \<noteq> path"
        unfolding p_def by blast
      from eq truthy emit have "filesDiag st1 = push fd p (mainMessageDiag p rex' (drop (Suc j) ls))"
        by simp
      then have "(path, ds) \<in> set (filesDiag st1) \<Longrightarrow> (path, ds) \<in> set fd" for ds
        using set_push_other[OF \<open>p \<noteq> path\<close>] by simp
      with Pfd show ?thesis by blast
    qed
  qed
qed

section \<open>The claims\<close>

text \<open>
  C1.  The claim: a parse pass never fails; in particular a line that starts with \<^verbatim>\<open>%\<close> but
  does not match the header grammar never makes it fail.

  The code does fail on such a line.  For the text \<^verbatim>\<open>%Error\<close> (a severity word with no
  \<^verbatim>\<open>": "\<close> after it) \<^verbatim>\<open>errorParserRegex.exec\<close> is \<^verbatim>\<open>null\<close>, and the passthrough test
  \<^verbatim>\<open>rex.groups["severity"] === "Error"\<close> throws a \<^verbatim>\<open>TypeError\<close> before the guard
  \<^verbatim>\<open>if (rex && rex[0].length > 0)\<close> further down is reached: the run of the callback ends
  there, with nothing logged for the line and no diagnostics.
\<close>

theorem malformed_header_throws:
  "parse isWindows ''%Error'' = Inl (TypeError, \<lparr>filesDiag = [], logged = []\<rparr>)"
  by code_simp

text \<open>
  C2.  A header whose line number group is not set (the location has no run of digits
  after the file name, or the location as a whole does not match, as in
  \<^verbatim>\<open>%Error: foo.sv:NOTANUMBER: msg\<close>) adds no diagnostic, and neither do the lines of its
  continuation block: wherever the block stands in the text, the diagnostics after the header
  and its block are the diagnostics before them.  Related messages exist only inside
  diagnostics, so none is emitted either.
\<close>

theorem unparseable_line_number_dropped:
  assumes "startsWith h ''%''" and "exec errorParserRegex h = Some rex"
    and "groups rex ''lineNumber'' = None"
    and "\<forall>l \<in> set cont. \<not> startsWith l ''%''"
  shows "\<exists>st'. lint_lines w (pre @ h # cont @ post)
                 [length pre ..< length pre + Suc (length cont)] st = Inr st' \<and>
               diagnostics st' = diagnostics st"
proof -
  let ?ls = "pre @ h # cont @ post"
  have h: "?ls ! length pre = h" by simp
  from lint_line_dropped[of ?ls "length pre" rex w st] assms(1-3) h
  obtain st1 where st1: "lint_line w ?ls (length pre) st = Inr st1"
    "diagnostics st1 = diagnostics st" by auto
  have "\<forall>i \<in> set [Suc (length pre) ..< length pre + Suc (length cont)].
          \<not> startsWith (?ls ! i) ''%''"
  proof
    fix i assume "i \<in> set [Suc (length pre) ..< length pre + Suc (length cont)]"
    then obtain j where j: "i = length pre + Suc j" "j < length cont"
      by (auto simp: less_iff_Suc_add le_iff_add)
    then have "?ls ! i = cont ! j"
      by (simp add: nth_append)
    moreover from j have "cont ! j \<in> set cont" by simp
    ultimately show "\<not> startsWith (?ls ! i) ''%''" using assms(4) by simp
  qed
  from lint_lines_plain[OF this, of w st1] obtain st' where
    st': "lint_lines w ?ls [Suc (length pre) ..< length pre + Suc (length cont)] st1 = Inr st'"
    "filesDiag st' = filesDiag st1" by blast
  have "[length pre ..< length pre + Suc (length cont)] =
        length pre # [Suc (length pre) ..< length pre + Suc (length cont)]"
    by (rule upt_conv_Cons) simp
  with st1 st' show ?thesis by (simp add: diagnostics_def)
qed

theorem unparseable_line_number_dropped_witness:
  "\<exists>st'. lint_lines False
           ([] @ ''%Error: foo.sv:NOTANUMBER: msg'' #
              [''        ... note: see also'', ''      |  ^~~''] @ [])
           [length ([] :: string list) ..<
              length ([] :: string list) +
              Suc (length [''        ... note: see also'', ''      |  ^~~''])]
           \<lparr>filesDiag = [], logged = []\<rparr> = Inr st' \<and>
         diagnostics st' = diagnostics \<lparr>filesDiag = [], logged = []\<rparr>"
proof -
  have "map_option (\<lambda>m. groups m ''lineNumber'')
          (exec errorParserRegex ''%Error: foo.sv:NOTANUMBER: msg'') = Some None"
    by code_simp
  then obtain rex where rex: "exec errorParserRegex ''%Error: foo.sv:NOTANUMBER: msg'' = Some rex"
    "groups rex ''lineNumber'' = None"
    by auto
  have hdr: "startsWith ''%Error: foo.sv:NOTANUMBER: msg'' ''%''"
    by code_simp
  have cont: "\<forall>l \<in> set [''        ... note: see also'', ''      |  ^~~'']. \<not> startsWith l ''%''"
    by (simp add: startsWith_def)
  from unparseable_line_number_dropped[OF hdr rex cont] show ?thesis .
qed

text \<open>
  C7.  The claim: a line is forwarded to the passthrough sink only if it never gained a
  Diagnostic.  The code logs every header line that \<^verbatim>\<open>errorParserRegex\<close> matches before it
  looks at the location, so the header below is both logged and turned into a Diagnostic.
\<close>

theorem header_with_diagnostic_is_logged:
  "parse False ''%Error: foo.sv:12:5: msg'' =
     Inr \<lparr>filesDiag =
            [(''foo.sv'',
              [\<lparr>severity = Error,
                diag_range = \<lparr>startLine = Finite 11, startCharacter = Finite 4,
                              endLine = Finite 11, endCharacter = MAX_VALUE\<rparr>,
                diag_message = ''msg'', source = ''verilator'', code = None,
                relatedInformation = []\<rparr>])],
          logged = [Logger_error ''%Error: foo.sv:12:5: msg'']\<rparr>"
  by code_simp

text \<open>
  C7, as the code has it: a pass that completes has forwarded every line of the text to the
  logger, exactly once and in the order of the text, whether or not a Diagnostic was built
  from it.
\<close>

theorem every_line_is_logged:
  assumes "parse w stderr = Inr st"
  shows "map logged_text (logged st) = split_lines stderr"
  using lint_lines_logged[of w "split_lines stderr" "[0..<length (split_lines stderr)]"
      "\<lparr>filesDiag = [], logged = []\<rparr>" st] assms
  by (simp add: parse_def Let_def map_nth)

theorem every_line_is_logged_witness:
  "parse False (''%Warning: a.sv:1:1: m1'' @ [CHR 0x0A] @ ''extra detail'') =
     Inr \<lparr>filesDiag =
            [(''a.sv'',
              [\<lparr>severity = Warning,
                diag_range = \<lparr>startLine = Finite 0, startCharacter = Finite 0,
                              endLine = Finite 0, endCharacter = MAX_VALUE\<rparr>,
                diag_message = ''m1'', source = ''verilator'', code = None,
                relatedInformation = []\<rparr>])],
          logged = [Logger_warn ''%Warning: a.sv:1:1: m1'', Logger_warn ''extra detail'']\<rparr> \<and>
   map logged_text [Logger_warn ''%Warning: a.sv:1:1: m1'', Logger_warn ''extra detail''] =
     split_lines (''%Warning: a.sv:1:1: m1'' @ [CHR 0x0A] @ ''extra detail'')"
proof -
  have p: "parse False (''%Warning: a.sv:1:1: m1'' @ [CHR 0x0A] @ ''extra detail'') =
     Inr \<lparr>filesDiag =
            [(''a.sv'',
              [\<lparr>severity = Warning,
                diag_range = \<lparr>startLine = Finite 0, startCharacter = Finite 0,
                              endLine = Finite 0, endCharacter = MAX_VALUE\<rparr>,
                diag_message = ''m1'', source = ''verilator'', code = None,
                relatedInformation = []\<rparr>])],
          logged = [Logger_warn ''%Warning: a.sv:1:1: m1'', Logger_warn ''extra detail'']\<rparr>"
    by code_simp
  from every_line_is_logged[OF p] have
    "map logged_text [Logger_warn ''%Warning: a.sv:1:1: m1'', Logger_warn ''extra detail''] =
       split_lines (''%Warning: a.sv:1:1: m1'' @ [CHR 0x0A] @ ''extra detail'')"
    by simp
  with p show ?thesis by (rule conjI)
qed




text \<open>
  C4.  The claim: at most one highlight line refines a secondary message, and a second
  highlight line in a row changes no range.  The code has no such limit: every highlight
  line met while the list of secondary messages is not empty replaces the range of the last
  message.  Below, the first highlight line would end the message of \<^verbatim>\<open>bar.sv:3:4\<close> at
  column \<open>3 + 3 = 6\<close>; the second one moves the end to \<open>3 + 6 = 9\<close>.
\<close>

theorem second_highlight_changes_range:
  "parse False
     (''%Error: foo.sv:12:5: msg'' @ [CHR 0x0A] @
      ''        bar.sv:3:4: ... note'' @ [CHR 0x0A] @
      ''      |  ^~~'' @ [CHR 0x0A] @
      ''      |  ^~~~~~'') =
   Inr \<lparr>filesDiag =
          [(''foo.sv'',
            [\<lparr>severity = Error,
              diag_range = \<lparr>startLine = Finite 11, startCharacter = Finite 4,
                            endLine = Finite 11, endCharacter = Finite 7\<rparr>,
              diag_message = ''msg'', source = ''verilator'', code = None,
              relatedInformation =
                [\<lparr>location =
                    \<lparr>uri = ''bar.sv'',
                     loc_range = \<lparr>startLine = Finite 2, startCharacter = Finite 3,
                                  endLine = Finite 2, endCharacter = Finite 9\<rparr>\<rparr>,
                  message = ''note''\<rparr>]\<rparr>])],
        logged =
          [Logger_error ''%Error: foo.sv:12:5: msg'',
           Logger_error ''        bar.sv:3:4: ... note'',
           Logger_error ''      |  ^~~'',
           Logger_error ''      |  ^~~~~~'']\<rparr>"
  by code_simp

text \<open>
  C4, as the code has it.  Let \<open>l\<close> be a highlight line of the block that is not itself a
  secondary message, met when the scan of the lines \<open>pre\<close> before it has found at least one
  secondary message.  Whatever \<open>pre\<close> holds (other highlight lines included), \<open>l\<close> leaves
  the number of messages, all messages but the last, and the file, start and text of the last
  one as they are, and sets the end column of the last one to
  \<open>startCol0 + length(caret+tildes)\<close>.  So the last highlight line before the next
  secondary message decides the end column.
\<close>

theorem later_highlight_overrides:
  assumes "\<forall>x \<in> set pre. \<not> startsWith x ''%''" and "\<not> startsWith l ''%''"
    and "exec highlightRegex l = Some m" and "groups m ''highlight'' = Some h"
    and "exec bottomMessageRegex l = None"
    and "before = bottomMessages hdr pre []" and "before \<noteq> []"
    and "after = bottomMessages hdr (pre @ [l]) []"
  shows "length after = length before \<and> butlast after = butlast before \<and>
         message (last after) = message (last before) \<and>
         uri (location (last after)) = uri (location (last before)) \<and>
         startLine (loc_range (location (last after))) =
           startLine (loc_range (location (last before))) \<and>
         startCharacter (loc_range (location (last after))) =
           startCharacter (loc_range (location (last before))) \<and>
         endCharacter (loc_range (location (last after))) =
           plus_length (startCharacter (loc_range (location (last before)))) (length h)"
proof -
  from assms(1,2) have "after = bottomStep hdr l before"
    by (simp add: assms(6,8) bottomMessages_snoc)
  with assms(3,4,5,7) have "after = highlightLast before h"
    by (simp add: bottomStep_def test_def Let_def str_def)
  with assms(7) show ?thesis
    by (simp add: highlightLast_def newRange_def)
qed

theorem later_highlight_overrides_witness:
  "endCharacter (loc_range (location (last
     (bottomMessages
        \<lparr>uri = ''foo.sv'',
         loc_range = \<lparr>startLine = Finite 11, startCharacter = Finite 4,
                      endLine = Finite 11, endCharacter = Finite 7\<rparr>\<rparr>
        ([''        bar.sv:3:4: ... note'', ''      |  ^~~''] @ [''      |  ^~~~~~'']) [])))) =
   Finite 9"
proof -
  let ?hdr = "\<lparr>uri = ''foo.sv'',
         loc_range = \<lparr>startLine = Finite 11, startCharacter = Finite 4,
                      endLine = Finite 11, endCharacter = Finite 7\<rparr>\<rparr>"
  have pre: "\<forall>x \<in> set [''        bar.sv:3:4: ... note'', ''      |  ^~~'']. \<not> startsWith x ''%''"
    by (simp add: startsWith_def)
  have l: "\<not> startsWith ''      |  ^~~~~~'' ''%''"
    by (simp add: startsWith_def)
  have "map_option (\<lambda>m. groups m ''highlight'') (exec highlightRegex ''      |  ^~~~~~'') =
        Some (Some ''^~~~~~'')"
    by code_simp
  then obtain m where m: "exec highlightRegex ''      |  ^~~~~~'' = Some m"
    "groups m ''highlight'' = Some ''^~~~~~''"
    by auto
  have nb: "exec bottomMessageRegex ''      |  ^~~~~~'' = None"
    by code_simp
  have before: "bottomMessages ?hdr [''        bar.sv:3:4: ... note'', ''      |  ^~~''] [] =
      [\<lparr>location =
          \<lparr>uri = ''bar.sv'',
           loc_range = \<lparr>startLine = Finite 2, startCharacter = Finite 3,
                        endLine = Finite 2, endCharacter = Finite 6\<rparr>\<rparr>,
        message = ''note''\<rparr>]"
    by code_simp
  then have ne: "bottomMessages ?hdr [''        bar.sv:3:4: ... note'', ''      |  ^~~''] [] \<noteq> []"
    by simp
  from later_highlight_overrides[OF pre l m nb refl ne refl] before
  show ?thesis by simp
qed

text \<open>
  C5.  The claim: after every two successive passes the collection holds exactly what the
  second pass found, so a file with diagnostics from the first pass and none from the second
  has none afterwards.

  That holds when the second pass completes (lemma \<open>completed_pass_replaces_collection\<close>).
  When the second text has a line that starts with \<^verbatim>\<open>%\<close> and that \<^verbatim>\<open>errorParserRegex\<close> does
  not match, the loop throws (see C1) and \<^verbatim>\<open>this.diagnosticCollection.clear()\<close> and the
  \<^verbatim>\<open>set\<close> calls after the loop are never reached.  Below, the first pass reports \<^verbatim>\<open>a.sv\<close> and
  \<^verbatim>\<open>b.sv\<close>; the second text reports \<^verbatim>\<open>a.sv\<close> only and then has the line \<^verbatim>\<open>%Error\<close>.  After the
  second run \<^verbatim>\<open>b.sv\<close> still shows the diagnostic of the first pass.
\<close>

theorem stale_diagnostics_after_throw:
  "thrown
     (callback False (''%Error: a.sv:1:1: x'' @ [CHR 0x0A] @ ''%Error'')
        (diagnosticCollection
           (callback False (''%Error: a.sv:1:1: x'' @ [CHR 0x0A] @ ''%Error: b.sv:2:2: y'')
              Map.empty))) = Some TypeError \<and>
   visible
     (diagnosticCollection
        (callback False (''%Error: a.sv:1:1: x'' @ [CHR 0x0A] @ ''%Error'')
           (diagnosticCollection
              (callback False (''%Error: a.sv:1:1: x'' @ [CHR 0x0A] @ ''%Error: b.sv:2:2: y'')
                 Map.empty)))) ''b.sv'' =
     [\<lparr>severity = Error,
       diag_range = \<lparr>startLine = Finite 1, startCharacter = Finite 1,
                     endLine = Finite 1, endCharacter = MAX_VALUE\<rparr>,
       diag_message = ''y'', source = ''verilator'', code = None,
       relatedInformation = []\<rparr>]"
  by code_simp

text \<open>
  C6.  The claim: a header at \<open>col0 = 4\<close> followed, before the next header, by a
  continuation line containing \<^verbatim>\<open>      ^~~~\<close> (one caret and four tildes) gets the end column
  \<open>4 + 5 = 9\<close>.  Two things stand in the way.  \<^verbatim>\<open>highlightRegex\<close> asks for a \<^verbatim>\<open>|\<close> and
  white space before the caret, so a line with the marker but without the \<^verbatim>\<open>|\<close> is no
  highlight and the end column stays \<^verbatim>\<open>Number.MAX_VALUE\<close>.  And the scan stops at the first
  highlight of the block, so behind a shorter highlight the line with one caret and four
  tildes is not looked at: the end column is \<open>4 + 2 = 6\<close>.
\<close>

theorem highlight_example_is_not_nine:
  "parse False (''%Error: foo.sv:12:5: msg'' @ [CHR 0x0A] @ ''      ^~~~~'') =
     Inr \<lparr>filesDiag =
            [(''foo.sv'',
              [\<lparr>severity = Error,
                diag_range = \<lparr>startLine = Finite 11, startCharacter = Finite 4,
                              endLine = Finite 11, endCharacter = MAX_VALUE\<rparr>,
                diag_message = ''msg'', source = ''verilator'', code = None,
                relatedInformation = []\<rparr>])],
          logged = [Logger_error ''%Error: foo.sv:12:5: msg'', Logger_error ''      ^~~~~'']\<rparr> \<and>
   parse False
     (''%Error: foo.sv:12:5: msg'' @ [CHR 0x0A] @
      ''      |  ^~'' @ [CHR 0x0A] @
      ''      |      ^~~~~'') =
     Inr \<lparr>filesDiag =
            [(''foo.sv'',
              [\<lparr>severity = Error,
                diag_range = \<lparr>startLine = Finite 11, startCharacter = Finite 4,
                              endLine = Finite 11, endCharacter = Finite 6\<rparr>,
                diag_message = ''msg'', source = ''verilator'', code = None,
                relatedInformation = []\<rparr>])],
          logged =
            [Logger_error ''%Error: foo.sv:12:5: msg'',
             Logger_error ''      |  ^~'',
             Logger_error ''      |      ^~~~~'']\<rparr>"
  by code_simp

text \<open>
  C6, as the code has it.  Let \<open>l\<close> be the first line after the header that
  \<^verbatim>\<open>highlightRegex\<close> matches (a \<^verbatim>\<open>|\<close>, white space, a caret and its tildes), with no line
  starting with \<^verbatim>\<open>%\<close> before it or at it.  Then the end column of the Diagnostic that
  \<open>lint_line\<close> builds for the header (\<open>mainMessageDiag\<close>) is the header's start column
  plus the length of the caret and tildes: for \<open>col0 = 4\<close> and one caret with four
  tildes, \<open>4 + 5 = 9\<close>.
\<close>

theorem highlight_sizes_main_range:
  assumes "\<forall>x \<in> set pre. \<not> startsWith x ''%'' \<and> exec highlightRegex x = None"
    and "\<not> startsWith l ''%''"
    and "exec highlightRegex l = Some m"
    and "groups m ''highlight'' = Some h"
    and "colNum rex = Finite c"
  shows "endCharacter (diag_range (mainMessageDiag path rex (pre @ l # post))) =
         Finite (c + int (length h))"
  using endColNum_first_highlight[OF assms(1-3), of "colNum rex" post] assms(4,5)
  by (simp add: mainMessageDiag_def mainRange_def Let_def str_def)

theorem highlight_sizes_main_range_witness:
  "map_option
     (\<lambda>rex. endCharacter (diag_range
        (mainMessageDiag ''foo.sv'' rex
           ([''   12 | assign x = y;''] @ ''      |      ^~~~~'' # [''%Error: Exiting'']))))
     (exec errorParserRegex ''%Error: foo.sv:12:5: msg'') =
   Some (Finite 9)"
proof -
  have "map_option colNum (exec errorParserRegex ''%Error: foo.sv:12:5: msg'') =
        Some (Finite 4)"
    by code_simp
  then obtain rex where rex: "exec errorParserRegex ''%Error: foo.sv:12:5: msg'' = Some rex"
    and col: "colNum rex = Finite 4"
    by auto
  have p1: "\<not> startsWith ''   12 | assign x = y;'' ''%''"
    by (simp add: startsWith_def)
  have p2: "exec highlightRegex ''   12 | assign x = y;'' = None"
    by code_simp
  from p1 p2 have pre: "\<forall>x \<in> set [''   12 | assign x = y;''].
      \<not> startsWith x ''%'' \<and> exec highlightRegex x = None"
    by simp
  have l: "\<not> startsWith ''      |      ^~~~~'' ''%''"
    by (simp add: startsWith_def)
  have "map_option (\<lambda>m. groups m ''highlight'') (exec highlightRegex ''      |      ^~~~~'') =
        Some (Some ''^~~~~'')"
    by code_simp
  then obtain m where m: "exec highlightRegex ''      |      ^~~~~'' = Some m"
    "groups m ''highlight'' = Some ''^~~~~''"
    by auto
  from highlight_sizes_main_range[OF pre l m col,
      where path = "''foo.sv''" and post = "[''%Error: Exiting'']"] rex
  show ?thesis by simp
qed

text \<open>
  C8.  The claim: the empty input forwards no passthrough line.  \<^verbatim>\<open>"".split(/\r?\n/g)\<close> is
  the list of one empty string, so the loop runs once and logs the empty line as an error.
\<close>

theorem empty_input_logs_one_line:
  "logger (callback False [] Map.empty) = [Logger_error []]"
  by code_simp

text \<open>
  C8, as the code has it: for the empty input a pass yields no entry in \<^verbatim>\<open>filesDiag\<close> and
  forwards exactly one passthrough line, the empty line, with the default severity Error.
\<close>

theorem empty_input_pass:
  "parse isWindows [] = Inr \<lparr>filesDiag = [], logged = [Logger_error []]\<rparr>"
  by code_simp

text \<open>
  C9.  The claim: the related messages of a Diagnostic are exactly the secondary messages of
  its block, in the order found, followed by the elaboration messages of its block, in the
  order found.

  The order is as claimed (lemma \<open>related_messages_in_order\<close>).  But the scan for the
  elaboration messages, unlike the two scans after it, has no test for a line that starts
  with \<^verbatim>\<open>%\<close>, and \<^verbatim>\<open>topRelatedInfoRegex\<close> is not anchored: it ends only at the first line in
  which the pattern occurs nowhere.  Below, the header of \<^verbatim>\<open>b.v\<close> follows the header of
  \<^verbatim>\<open>a.v\<close> at once and its message contains \<^verbatim>\<open> : ... x\<close>; the Diagnostic of \<^verbatim>\<open>a.v\<close>, whose block
  is empty, gets the related message \<^verbatim>\<open>x\<close> from the next block.
\<close>

theorem elaboration_scan_crosses_header:
  "parse False (''%Error: a.v:1:1: m'' @ [CHR 0x0A] @ ''%Error: b.v:2:2: n : ... x'') =
     Inr \<lparr>filesDiag =
            [(''a.v'',
              [\<lparr>severity = Error,
                diag_range = \<lparr>startLine = Finite 0, startCharacter = Finite 0,
                              endLine = Finite 0, endCharacter = MAX_VALUE\<rparr>,
                diag_message = ''m'', source = ''verilator'', code = None,
                relatedInformation =
                  [\<lparr>location =
                      \<lparr>uri = ''a.v'',
                       loc_range = \<lparr>startLine = Finite 0, startCharacter = Finite 0,
                                    endLine = Finite 0, endCharacter = MAX_VALUE\<rparr>\<rparr>,
                    message = ''x''\<rparr>]\<rparr>]),
             (''b.v'',
              [\<lparr>severity = Error,
                diag_range = \<lparr>startLine = Finite 1, startCharacter = Finite 1,
                              endLine = Finite 1, endCharacter = MAX_VALUE\<rparr>,
                diag_message = ''n : ... x'', source = ''verilator'', code = None,
                relatedInformation = []\<rparr>])],
          logged =
            [Logger_error ''%Error: a.v:1:1: m'',
             Logger_error ''%Error: b.v:2:2: n : ... x'']\<rparr>"
  by code_simp

text \<open>
  C10.  A header whose \<^verbatim>\<open>filePath\<close> group is set and whose \<^verbatim>\<open>lineNumber\<close> group is not
  adds no Diagnostic, but before it is dropped its file (with backslashes replaced on
  Windows) has become a key of \<^verbatim>\<open>filesDiag\<close>: the line appends the entry of the file with
  no diagnostics when the file is not yet a key.  The file is a key of the result of every
  pass that completes, and the loop after the pass hands the entry to the collection: the
  collection then has an entry for the file, the one of \<^verbatim>\<open>filesDiag\<close>, and the entry is the
  empty list when no header of the text with this file has a line number.
\<close>

theorem dropped_header_leaves_key:
  assumes "parse w stderr = Inr st"
    and "i < length (split_lines stderr)"
    and "startsWith (split_lines stderr ! i) ''%''"
    and "exec errorParserRegex (split_lines stderr ! i) = Some rex"
    and "truthy (groups rex ''filePath'')"
    and "groups rex ''lineNumber'' = None"
    and "path = (if w then replace_backslashes (str (groups rex ''filePath''))
                 else str (groups rex ''filePath''))"
  shows "has (filesDiag st) path \<and>
         (\<exists>st1. lint_line w (split_lines stderr) i st0 = Inr st1 \<and>
            filesDiag st1 =
              (if has (filesDiag st0) path then filesDiag st0
               else filesDiag st0 @ [(path, [])])) \<and>
         diagnosticCollection (callback w stderr collection) path =
           map_of (filesDiag st) path \<and>
         diagnosticCollection (callback w stderr collection) path \<noteq> None \<and>
         ((\<forall>j rex'.
             j < length (split_lines stderr) \<and>
             startsWith (split_lines stderr ! j) ''%'' \<and>
             exec errorParserRegex (split_lines stderr ! j) = Some rex' \<and>
             truthy (groups rex' ''filePath'') \<and>
             (if w then replace_backslashes (str (groups rex' ''filePath''))
              else str (groups rex' ''filePath'')) = path \<longrightarrow>
             isNaN (lineNum rex')) \<longrightarrow>
          diagnosticCollection (callback w stderr collection) path = Some [])"
proof -
  let ?ls = "split_lines stderr"
  have nan: "isNaN (lineNum rex)"
    using assms(6) by (simp add: lineNum_def Number_def)
  have step: "\<exists>st1. lint_line w ?ls i s = Inr st1 \<and>
            filesDiag st1 =
              (if has (filesDiag s) path then filesDiag s else filesDiag s @ [(path, [])])" for s
    using lint_line_header[OF assms(3,4), of w s] assms(5) nan
    by (auto simp: Let_def assms(7) set_empty_def)
  from assms(1) have run: "lint_lines w ?ls [0..<length ?ls]
      \<lparr>filesDiag = [], logged = []\<rparr> = Inr st"
    by (simp add: parse_def Let_def)
  from assms(2) have "[0..<length ?ls] = [0..<i] @ i # [Suc i..<length ?ls]"
    by (metis le0 less_imp_le_nat upt_add_eq_append upt_conv_Cons le_add_diff_inverse)
  with run have run': "lint_lines w ?ls ([0..<i] @ i # [Suc i..<length ?ls])
      \<lparr>filesDiag = [], logged = []\<rparr> = Inr st" by simp
  then obtain sa where sa: "lint_lines w ?ls [0..<i] \<lparr>filesDiag = [], logged = []\<rparr> = Inr sa"
    and rest: "lint_lines w ?ls (i # [Suc i..<length ?ls]) sa = Inr st"
    by (auto simp: lint_lines_append split: sum.splits)
  from step[of sa] obtain sb where sb: "lint_line w ?ls i sa = Inr sb"
    and fsb: "filesDiag sb =
              (if has (filesDiag sa) path then filesDiag sa else filesDiag sa @ [(path, [])])"
    by blast
  from fsb have "has (filesDiag sb) path"
    by (auto simp: has_iff)
  moreover from rest sb have "lint_lines w ?ls [Suc i..<length ?ls] sb = Inr st" by simp
  ultimately have key: "has (filesDiag st) path" by (rule lint_lines_has[rotated])
  have coll: "diagnosticCollection (callback w stderr collection) = map_of (filesDiag st)"
    by (rule completed_pass_replaces_collection[OF assms(1)])
  from key have some: "map_of (filesDiag st) path \<noteq> None"
    by (simp add: has_def)
  have empty: "map_of (filesDiag st) path = Some []"
    if dropped: "\<forall>j rex'.
             j < length ?ls \<and> startsWith (?ls ! j) ''%'' \<and>
             exec errorParserRegex (?ls ! j) = Some rex' \<and>
             truthy (groups rex' ''filePath'') \<and>
             (if w then replace_backslashes (str (groups rex' ''filePath''))
              else str (groups rex' ''filePath'')) = path \<longrightarrow>
             isNaN (lineNum rex')"
  proof -
    let ?P = "\<lambda>st. \<forall>ds. (path, ds) \<in> set (filesDiag st) \<longrightarrow> ds = []"
    have "?P st"
    proof (rule lint_lines_invariant[where P = ?P, OF _ _ run], intro ballI allI impI)
      show "?P \<lparr>filesDiag = [], logged = []\<rparr>" by simp
    next
      fix j st0 st1 ds
      assume j: "j \<in> set [0..<length ?ls]" and P0: "?P st0"
        and line: "lint_line w ?ls j st0 = Inr st1"
        and mem: "(path, ds) \<in> set (filesDiag st1)"
      from j have "j < length ?ls" by simp
      with dropped have "\<forall>rex'. startsWith (?ls ! j) ''%'' \<and>
          exec errorParserRegex (?ls ! j) = Some rex' \<and>
          truthy (groups rex' ''filePath'') \<and>
          (if w then replace_backslashes (str (groups rex' ''filePath''))
           else str (groups rex' ''filePath'')) = path \<longrightarrow> isNaN (lineNum rex')"
        by blast
      from lint_line_keeps_empty[OF line this P0] mem show "ds = []" by blast
    qed
    moreover from some obtain ds where "map_of (filesDiag st) path = Some ds" by blast
    ultimately show ?thesis by (auto dest: map_of_SomeD)
  qed
  from key step[of st0] coll some empty show ?thesis by simp
qed

theorem dropped_header_leaves_key_witness:
  "parse False ''%Error: foo.sv: msg'' =
     Inr \<lparr>filesDiag = [(''foo.sv'', [])], logged = [Logger_error ''%Error: foo.sv: msg'']\<rparr> \<and>
   has [(''foo.sv'', [])] ''foo.sv'' \<and>
   diagnosticCollection (callback False ''%Error: foo.sv: msg'' Map.empty) ''foo.sv'' = Some []"
proof -
  have p: "parse False ''%Error: foo.sv: msg'' =
     Inr \<lparr>filesDiag = [(''foo.sv'', [])], logged = [Logger_error ''%Error: foo.sv: msg'']\<rparr>"
    by code_simp
  have sp: "split_lines ''%Error: foo.sv: msg'' = [''%Error: foo.sv: msg'']"
    by code_simp
  have i: "0 < length (split_lines ''%Error: foo.sv: msg'')"
    by (simp add: sp)
  have hdr: "startsWith (split_lines ''%Error: foo.sv: msg'' ! 0) ''%''"
    by (simp add: sp startsWith_def)
  have "map_option (\<lambda>m. (groups m ''filePath'', groups m ''lineNumber''))
          (exec errorParserRegex ''%Error: foo.sv: msg'') = Some (Some ''foo.sv'', None)"
    by code_simp
  then obtain rex where rex: "exec errorParserRegex (split_lines ''%Error: foo.sv: msg'' ! 0) = Some rex"
    and g: "groups rex ''filePath'' = Some ''foo.sv''" "groups rex ''lineNumber'' = None"
    by (auto simp: sp)
  from g(1) have t: "truthy (groups rex ''filePath'')" by (simp add: truthy_def)
  from g(1) have path: "''foo.sv'' = (if False then replace_backslashes (str (groups rex ''filePath''))
                 else str (groups rex ''filePath''))"
    by (simp add: str_def)
  from g(2) have nan: "isNaN (lineNum rex)" by (simp add: lineNum_def Number_def)
  have dropped: "\<forall>j rex'.
             j < length (split_lines ''%Error: foo.sv: msg'') \<and>
             startsWith (split_lines ''%Error: foo.sv: msg'' ! j) ''%'' \<and>
             exec errorParserRegex (split_lines ''%Error: foo.sv: msg'' ! j) = Some rex' \<and>
             truthy (groups rex' ''filePath'') \<and>
             (if False then replace_backslashes (str (groups rex' ''filePath''))
              else str (groups rex' ''filePath'')) = ''foo.sv'' \<longrightarrow>
             isNaN (lineNum rex')"
  proof (intro allI impI)
    fix j rex'
    assume a: "j < length (split_lines ''%Error: foo.sv: msg'') \<and>
             startsWith (split_lines ''%Error: foo.sv: msg'' ! j) ''%'' \<and>
             exec errorParserRegex (split_lines ''%Error: foo.sv: msg'' ! j) = Some rex' \<and>
             truthy (groups rex' ''filePath'') \<and>
             (if False then replace_backslashes (str (groups rex' ''filePath''))
              else str (groups rex' ''filePath'')) = ''foo.sv''"
    then have "j = 0" by (simp add: sp)
    with a rex have "rex' = rex" by simp
    with nan show "isNaN (lineNum rex')" by simp
  qed
  from dropped_header_leaves_key[OF p i hdr rex t g(2) path, where collection = Map.empty]
    dropped
  have "has [(''foo.sv'', [])] ''foo.sv''"
    and "diagnosticCollection (callback False ''%Error: foo.sv: msg'' Map.empty) ''foo.sv'' = Some []"
    by simp_all
  with p show ?thesis by simp
qed

end
